theory Spec2Isabelle
  imports Main "HOL-Library.Sublist"
begin

section \<open>The notebook 0-single-cog.ipynb as a program\<close>

text \<open>
  The repository is one Jupyter notebook. Its code cells are straight-line Python: imports,
  assignments, \<^verbatim>\<open>os.environ[...] = ...\<close>, \<^verbatim>\<open>del\<close>, one shell escape and calls into
  xarray, rasterio/GDAL, rioxarray, dask, hvplot and requests. The embedding keeps the
  cells, their order, their \<^verbatim>\<open>%%time\<close> markers and the markdown heading each cell
  stands under. What lies outside the notebook is a parameter or a recorded event:
  \<^item> whether the n-th interaction with the outside raises is given by a function
    \<open>w :: nat \<Rightarrow> 'x option\<close> (\<open>None\<close>: it returns; \<open>Some x\<close>: it raises \<open>x\<close>);
  \<^item> every such interaction is appended to a trace, with the process environment it ran
    under;
  \<^item> a \<^verbatim>\<open>%%time\<close> cell that completes appends one timing entry holding the events the
    timed region covered (the measured number of seconds is not part of the model);
  \<^item> the cells run top to bottom, and the run ends at the first cell that raises, as a
    batch execution of a notebook does. No cell has a \<^verbatim>\<open>try\<close>.
\<close>

type_synonym name = string
type_synonym env = "string \<rightharpoonup> string"

text \<open>The markdown headings the code cells stand under (cells before the first
  \<^verbatim>\<open>##\<close> heading are the preamble).\<close>

datatype heading =
    Preamble
  | DownloadThenOpen
  | DefaultRemoteRead
  | GdalEnvironmentVariables
  | Dask
  | Visualize

text \<open>
  What an xarray DataArray of the notebook is backed by: a file-backed array whose pixels
  are read on demand (\<^verbatim>\<open>open_rasterio\<close> without \<^verbatim>\<open>chunks\<close>), a dask task graph with
  a number of layers (\<^verbatim>\<open>open_rasterio(..., chunks=...)\<close> and what is derived from it), or
  values held in memory.
\<close>

datatype backing = OnDemand | DaskGraph nat | InMemory

datatype pyval =
    Module
  | Str string
  | Chunks "(string \<times> nat) list"
  | DataArray backing
  | Handle

text \<open>The calls the notebook makes to the outside, with the variables they mention.\<close>

datatype call =
    ImportModule string
  | ModuleVersion name
  | GdalVersionInfo
  | RequestsGet name
  | RespStatus name
  | CurlDownload name
  | OpenRasterio name "name option"
  | RioOpenRasterio name
  | NBytes name
  | Mean name
  | LocalCluster
  | Client
  | GraphVisualize name
  | Compute name
  | HvplotImage name name

datatype rhs =
    Lit string
  | Basename name
  | DictChunks "(string \<times> nat) list"
  | Var name
  | Ext call

datatype stmt =
    Import string "name list"
  | SetEnv string string
  | Bind name rhs
  | Eval rhs
  | Del name
  | Shell call

record cell =
  cell_line :: nat
  heading :: heading
  timed :: bool
  body :: "stmt list"

text \<open>What an event does to the raster: read its metadata, read (and decode) its pixels,
  only extend a deferred task graph, fetch the file as it is, or nothing of these.\<close>

datatype effect = Metadata | Pixels | Graph | Download | Unrelated

datatype 'x exc = NameError name | AttributeError name | External 'x

record 'x event =
  ev_cell :: nat
  ev_heading :: heading
  ev_call :: call
  ev_shell :: bool
  ev_env :: env
  ev_effect :: effect
  ev_raised :: "'x option"

record 'x timing =
  t_cell :: nat
  t_heading :: heading
  t_covered :: "'x event list"

record 'x state =
  environ :: env
  vars :: "name \<rightharpoonup> pyval"
  trace :: "'x event list"
  timings :: "'x timing list"
  raised :: "(nat \<times> 'x exc) option"

section \<open>The cells\<close>

definition s3uri_lit :: string where
  "s3uri_lit = ''s3://sentinel-s1-rtc-indigo/tiles/RTC/1/IW/10/T/ET/2020/S1B_20200106_10TET_ASC/Gamma0_VV.tif''"

definition url_lit :: string where
  "url_lit = ''https://sentinel-s1-rtc-indigo.s3.us-west-2.amazonaws.com/tiles/RTC/1/IW/10/T/ET/2020/S1B_20200106_10TET_ASC/Gamma0_VV.tif''"

text \<open>Lines 24-30, 39-41, 50-52 and 61-66: imports, versions, the two locators, the
  validator request.\<close>

definition cell_imports :: cell where
  "cell_imports = \<lparr>cell_line = 24, heading = Preamble, timed = False, body =
     [Import ''os'' [''os''],
      Import ''xarray'' [''xr''],
      Import ''rasterio'' [''rasterio''],
      Import ''rioxarray'' [''rioxarray''],
      Import ''hvplot.xarray'' [''hvplot''],
      Import ''gdal'' [''gdal''],
      Import ''requests'' [''requests'']]\<rparr>"

definition cell_versions :: cell where
  "cell_versions = \<lparr>cell_line = 39, heading = Preamble, timed = False, body =
     [Eval (Ext (ModuleVersion ''xr'')),
      Eval (Ext (ModuleVersion ''rasterio'')),
      Eval (Ext GdalVersionInfo)]\<rparr>"

definition cell_paths :: cell where
  "cell_paths = \<lparr>cell_line = 50, heading = Preamble, timed = False, body =
     [Bind ''s3uri'' (Lit s3uri_lit),
      Bind ''url'' (Lit url_lit)]\<rparr>"

definition cell_validate :: cell where
  "cell_validate = \<lparr>cell_line = 61, heading = Preamble, timed = False, body =
     [Bind ''resp'' (Ext (RequestsGet ''url'')),
      Eval (Ext (RespStatus ''resp''))]\<rparr>"

text \<open>Lines 84-88, 97-98, 107-109, 118: download then open.\<close>

definition cell_download_open :: cell where
  "cell_download_open = \<lparr>cell_line = 84, heading = DownloadThenOpen, timed = True, body =
     [Shell (CurlDownload ''url''),
      Bind ''localFile'' (Basename ''url''),
      Bind ''da'' (Ext (OpenRasterio ''localFile'' None))]\<rparr>"

definition cell_nbytes :: cell where
  "cell_nbytes = \<lparr>cell_line = 97, heading = DownloadThenOpen, timed = False, body =
     [Eval (Ext (NBytes ''da'')),
      Eval (Var ''da'')]\<rparr>"

definition cell_local_mean :: cell where
  "cell_local_mean = \<lparr>cell_line = 107, heading = DownloadThenOpen, timed = True, body =
     [Eval (Ext (Mean ''da''))]\<rparr>"

definition cell_local_del :: cell where
  "cell_local_del = \<lparr>cell_line = 118, heading = DownloadThenOpen, timed = False, body =
     [Del ''da'']\<rparr>"

text \<open>Lines 145-147, 156-158, 174-177, 186: default remote read.\<close>

definition cell_default_open :: cell where
  "cell_default_open = \<lparr>cell_line = 145, heading = DefaultRemoteRead, timed = True, body =
     [Bind ''da'' (Ext (OpenRasterio ''url'' None))]\<rparr>"

definition cell_default_mean :: cell where
  "cell_default_mean = \<lparr>cell_line = 156, heading = DefaultRemoteRead, timed = True, body =
     [Eval (Ext (Mean ''da''))]\<rparr>"

definition cell_default_again :: cell where
  "cell_default_again = \<lparr>cell_line = 174, heading = DefaultRemoteRead, timed = True, body =
     [Bind ''da'' (Ext (OpenRasterio ''url'' None)),
      Eval (Ext (Mean ''da''))]\<rparr>"

definition cell_default_del :: cell where
  "cell_default_del = \<lparr>cell_line = 186, heading = DefaultRemoteRead, timed = False, body =
     [Del ''da'']\<rparr>"

text \<open>Lines 230-235, 244-246, 255-257, 266: GDAL environment variables.\<close>

definition cell_environ :: cell where
  "cell_environ = \<lparr>cell_line = 230, heading = GdalEnvironmentVariables, timed = False, body =
     [SetEnv ''GDAL_DISABLE_READDIR_ON_OPEN'' ''EMPTY_DIR'',
      SetEnv ''AWS_NO_SIGN_REQUEST'' ''YES'',
      SetEnv ''GDAL_MAX_RAW_BLOCK_CACHE_SIZE'' ''200000000'',
      SetEnv ''GDAL_SWATH_SIZE'' ''200000000'',
      SetEnv ''VSI_CURL_CACHE_SIZE'' ''200000000'']\<rparr>"

definition cell_tuned_open :: cell where
  "cell_tuned_open = \<lparr>cell_line = 244, heading = GdalEnvironmentVariables, timed = True, body =
     [Bind ''da'' (Ext (OpenRasterio ''url'' None))]\<rparr>"

definition cell_tuned_mean :: cell where
  "cell_tuned_mean = \<lparr>cell_line = 255, heading = GdalEnvironmentVariables, timed = True, body =
     [Eval (Ext (Mean ''da''))]\<rparr>"

definition cell_tuned_del :: cell where
  "cell_tuned_del = \<lparr>cell_line = 266, heading = GdalEnvironmentVariables, timed = False, body =
     [Del ''da'']\<rparr>"

text \<open>Lines 302-305, 314-317, 326-329, 338-339, 355-357: Dask.\<close>

definition cell_cluster :: cell where
  "cell_cluster = \<lparr>cell_line = 302, heading = Dask, timed = False, body =
     [Import ''dask.distributed'' [''Client'', ''LocalCluster''],
      Bind ''cluster'' (Ext LocalCluster),
      Bind ''client'' (Ext Client),
      Eval (Var ''client'')]\<rparr>"

definition cell_chunked_open :: cell where
  "cell_chunked_open = \<lparr>cell_line = 314, heading = Dask, timed = True, body =
     [Bind ''chunks'' (DictChunks [(''band'', 1), (''x'', 2745), (''y'', 2745)]),
      Bind ''da'' (Ext (OpenRasterio ''url'' (Some ''chunks'')))]\<rparr>"

definition cell_chunked_mean :: cell where
  "cell_chunked_mean = \<lparr>cell_line = 326, heading = Dask, timed = True, body =
     [Bind ''ave'' (Ext (Mean ''da'')),
      Eval (Var ''ave'')]\<rparr>"

definition cell_graph :: cell where
  "cell_graph = \<lparr>cell_line = 338, heading = Dask, timed = False, body =
     [Eval (Ext (GraphVisualize ''ave''))]\<rparr>"

definition cell_compute :: cell where
  "cell_compute = \<lparr>cell_line = 355, heading = Dask, timed = True, body =
     [Eval (Ext (Compute ''ave''))]\<rparr>"

text \<open>Lines 391-393 and the empty last cell: visualize.\<close>

definition cell_plot :: cell where
  "cell_plot = \<lparr>cell_line = 391, heading = Visualize, timed = True, body =
     [Bind ''da'' (Ext (RioOpenRasterio ''url'')),
      Eval (Ext (HvplotImage ''da'' ''url''))]\<rparr>"

definition cell_empty :: cell where
  "cell_empty = \<lparr>cell_line = 401, heading = Visualize, timed = False, body = []\<rparr>"

definition cells_before_environ :: "cell list" where
  "cells_before_environ =
     [cell_imports, cell_versions, cell_paths, cell_validate,
      cell_download_open, cell_nbytes, cell_local_mean, cell_local_del,
      cell_default_open, cell_default_mean, cell_default_again, cell_default_del]"

definition cells_after_environ :: "cell list" where
  "cells_after_environ =
     [cell_tuned_open, cell_tuned_mean, cell_tuned_del,
      cell_cluster, cell_chunked_open, cell_chunked_mean, cell_graph, cell_compute,
      cell_plot, cell_empty]"

definition notebook :: "cell list" where
  "notebook = cells_before_environ @ [cell_environ] @ cells_after_environ"

section \<open>Running the cells\<close>

text \<open>\<^verbatim>\<open>os.path.basename\<close>: what follows the last slash.\<close>

definition basename :: "string \<Rightarrow> string" where
  "basename t = rev (takeWhile (\<lambda>c. c \<noteq> CHR ''/'') (rev t))"

fun first_unbound :: "name list \<Rightarrow> (name \<rightharpoonup> pyval) \<Rightarrow> name option" where
  "first_unbound [] vs = None"
| "first_unbound (x # xs) vs = (if vs x = None then Some x else first_unbound xs vs)"

text \<open>The names a call looks up, in Python's order of evaluation. The shell escape expands
  \<^verbatim>\<open>{url}\<close> itself.\<close>

fun reads :: "call \<Rightarrow> name list" where
  "reads (ImportModule m) = []"
| "reads (ModuleVersion m) = [m]"
| "reads GdalVersionInfo = [''gdal'']"
| "reads (RequestsGet u) = [''requests'', u]"
| "reads (RespStatus r) = [r]"
| "reads (CurlDownload u) = []"
| "reads (OpenRasterio x c) = ''xr'' # x # (case c of None \<Rightarrow> [] | Some n \<Rightarrow> [n])"
| "reads (RioOpenRasterio u) = [''rioxarray'', u]"
| "reads (NBytes x) = [x]"
| "reads (Mean x) = [x]"
| "reads LocalCluster = [''LocalCluster'']"
| "reads Client = [''Client'']"
| "reads (GraphVisualize x) = [x]"
| "reads (Compute x) = [x]"
| "reads (HvplotImage x u) = [x, u]"

definition array_of :: "(name \<rightharpoonup> pyval) \<Rightarrow> name \<Rightarrow> backing option" where
  "array_of vs x = (case vs x of Some (DataArray b) \<Rightarrow> Some b | _ \<Rightarrow> None)"

text \<open>
  What the libraries do with the raster when a call returns, as the notebook relies on it
  and says in its prose (lines 165, 346, 367): opening reads metadata only; with
  \<^verbatim>\<open>chunks\<close> the result is a dask array, "just a view of the data (known from metadata
  alone), and a task-graph", on which \<^verbatim>\<open>mean\<close> only extends the graph and which
  \<^verbatim>\<open>.compute()\<close> brings into memory; without \<^verbatim>\<open>chunks\<close>, \<^verbatim>\<open>mean\<close> reads the
  pixels and the array keeps them (hence \<^verbatim>\<open>del da #clear cache\<close>). The result is the
  effect, the value returned and the variables afterwards.
\<close>

fun contract :: "call \<Rightarrow> (name \<rightharpoonup> pyval) \<Rightarrow> 'x exc + (effect \<times> pyval \<times> (name \<rightharpoonup> pyval))" where
  "contract (ImportModule m) vs = Inr (Unrelated, Module, vs)"
| "contract (ModuleVersion m) vs = Inr (Unrelated, Handle, vs)"
| "contract GdalVersionInfo vs = Inr (Unrelated, Handle, vs)"
| "contract (RequestsGet u) vs = Inr (Unrelated, Handle, vs)"
| "contract (RespStatus r) vs = Inr (Unrelated, Handle, vs)"
| "contract (CurlDownload u) vs = Inr (Download, Handle, vs)"
| "contract (OpenRasterio x None) vs = Inr (Metadata, DataArray OnDemand, vs)"
| "contract (OpenRasterio x (Some c)) vs = Inr (Metadata, DataArray (DaskGraph 1), vs)"
| "contract (RioOpenRasterio u) vs = Inr (Metadata, DataArray OnDemand, vs)"
| "contract (NBytes x) vs =
     (case array_of vs x of None \<Rightarrow> Inl (AttributeError x) | Some b \<Rightarrow> Inr (Unrelated, Handle, vs))"
| "contract (Mean x) vs =
     (case array_of vs x of
        None \<Rightarrow> Inl (AttributeError x)
      | Some OnDemand \<Rightarrow> Inr (Pixels, DataArray InMemory, vs(x \<mapsto> DataArray InMemory))
      | Some (DaskGraph n) \<Rightarrow> Inr (Graph, DataArray (DaskGraph (Suc n)), vs)
      | Some InMemory \<Rightarrow> Inr (Unrelated, DataArray InMemory, vs))"
| "contract LocalCluster vs = Inr (Unrelated, Handle, vs)"
| "contract Client vs = Inr (Unrelated, Handle, vs)"
| "contract (GraphVisualize x) vs =
     (case array_of vs x of
        Some (DaskGraph n) \<Rightarrow> Inr (Unrelated, Handle, vs)
      | _ \<Rightarrow> Inl (AttributeError x))"
| "contract (Compute x) vs =
     (case array_of vs x of
        None \<Rightarrow> Inl (AttributeError x)
      | Some OnDemand \<Rightarrow> Inr (Pixels, DataArray InMemory, vs(x \<mapsto> DataArray InMemory))
      | Some (DaskGraph n) \<Rightarrow> Inr (Pixels, DataArray InMemory, vs)
      | Some InMemory \<Rightarrow> Inr (Unrelated, DataArray InMemory, vs))"
| "contract (HvplotImage x u) vs =
     (case array_of vs x of
        None \<Rightarrow> Inl (AttributeError x)
      | Some OnDemand \<Rightarrow> Inr (Pixels, Handle, vs(x \<mapsto> DataArray InMemory))
      | Some (DaskGraph n) \<Rightarrow> Inr (Pixels, Handle, vs)
      | Some InMemory \<Rightarrow> Inr (Unrelated, Handle, vs))"

definition mk_event :: "cell \<Rightarrow> call \<Rightarrow> bool \<Rightarrow> effect \<Rightarrow> 'x option \<Rightarrow> 'x state \<Rightarrow> 'x event" where
  "mk_event c k sh eff r s =
     \<lparr>ev_cell = cell_line c, ev_heading = heading c, ev_call = k, ev_shell = sh,
      ev_env = environ s, ev_effect = eff, ev_raised = r\<rparr>"

text \<open>A call (\<open>ev_shell\<close> tells a \<^verbatim>\<open>!\<close> shell escape, whose exit status Python
  never sees, from a Python call): an unbound name raises before anything is issued; otherwise the call is
  issued once, under the environment of that moment, and what it raises is what the
  statement raises.\<close>

definition issue :: "(nat \<Rightarrow> 'x option) \<Rightarrow> cell \<Rightarrow> call \<Rightarrow> 'x state \<Rightarrow> 'x state \<times> ('x exc + pyval)" where
  "issue w c k s =
     (case first_unbound (reads k) (vars s) of
        Some x \<Rightarrow> (s, Inl (NameError x))
      | None \<Rightarrow>
          (case contract k (vars s) of
             Inl e \<Rightarrow> (s, Inl e)
           | Inr (eff, v, vs') \<Rightarrow>
               (let r = w (length (trace s));
                    s1 = s\<lparr>trace := trace s @ [mk_event c k False eff r s]\<rparr>
                in case r of
                     Some x \<Rightarrow> (s1, Inl (External x))
                   | None \<Rightarrow> (s1\<lparr>vars := vs'\<rparr>, Inr v))))"

fun eval_rhs :: "(nat \<Rightarrow> 'x option) \<Rightarrow> cell \<Rightarrow> rhs \<Rightarrow> 'x state \<Rightarrow> 'x state \<times> ('x exc + pyval)" where
  "eval_rhs w c (Lit t) s = (s, Inr (Str t))"
| "eval_rhs w c (Basename x) s =
     (case first_unbound [''os'', x] (vars s) of
        Some y \<Rightarrow> (s, Inl (NameError y))
      | None \<Rightarrow>
          (case vars s x of
             Some (Str t) \<Rightarrow> (s, Inr (Str (basename t)))
           | _ \<Rightarrow> (s, Inl (AttributeError x))))"
| "eval_rhs w c (DictChunks kv) s = (s, Inr (Chunks kv))"
| "eval_rhs w c (Var x) s =
     (case vars s x of None \<Rightarrow> (s, Inl (NameError x)) | Some v \<Rightarrow> (s, Inr v))"
| "eval_rhs w c (Ext k) s = issue w c k s"

definition bind_all :: "name list \<Rightarrow> pyval \<Rightarrow> (name \<rightharpoonup> pyval) \<Rightarrow> (name \<rightharpoonup> pyval)" where
  "bind_all xs v vs = foldl (\<lambda>m x. m(x \<mapsto> v)) vs xs"

fun exec_stmt :: "(nat \<Rightarrow> 'x option) \<Rightarrow> cell \<Rightarrow> stmt \<Rightarrow> 'x state \<Rightarrow> 'x state \<times> 'x exc option" where
  "exec_stmt w c (Import m xs) s =
     (case issue w c (ImportModule m) s of
        (s', Inl e) \<Rightarrow> (s', Some e)
      | (s', Inr v) \<Rightarrow> (s'\<lparr>vars := bind_all xs Module (vars s')\<rparr>, None))"
| "exec_stmt w c (SetEnv k v) s =
     (if vars s ''os'' = None then (s, Some (NameError ''os''))
      else (s\<lparr>environ := (environ s)(k \<mapsto> v)\<rparr>, None))"
| "exec_stmt w c (Bind x r) s =
     (case eval_rhs w c r s of
        (s', Inl e) \<Rightarrow> (s', Some e)
      | (s', Inr v) \<Rightarrow> (s'\<lparr>vars := (vars s')(x \<mapsto> v)\<rparr>, None))"
| "exec_stmt w c (Eval r) s =
     (case eval_rhs w c r s of
        (s', Inl e) \<Rightarrow> (s', Some e)
      | (s', Inr v) \<Rightarrow> (s', None))"
| "exec_stmt w c (Del x) s =
     (if vars s x = None then (s, Some (NameError x))
      else (s\<lparr>vars := (vars s)(x := None)\<rparr>, None))"
| "exec_stmt w c (Shell k) s =
     (s\<lparr>trace := trace s @ [mk_event c k True Download (w (length (trace s))) s]\<rparr>, None)"

text \<open>The statements of a cell run in order; the first one that raises ends the cell.\<close>

fun exec_body :: "(nat \<Rightarrow> 'x option) \<Rightarrow> cell \<Rightarrow> stmt list \<Rightarrow> 'x state \<Rightarrow> 'x state \<times> 'x exc option" where
  "exec_body w c [] s = (s, None)"
| "exec_body w c (st # sts) s =
     (case exec_stmt w c st s of
        (s', Some e) \<Rightarrow> (s', Some e)
      | (s', None) \<Rightarrow> exec_body w c sts s')"

text \<open>A cell: nothing runs once a cell has raised. A \<^verbatim>\<open>%%time\<close> cell that completes
  reports one timing, over the events issued since the cell began; a cell that raises
  reports the exception and no timing.\<close>

definition run_cell :: "(nat \<Rightarrow> 'x option) \<Rightarrow> 'x state \<Rightarrow> cell \<Rightarrow> 'x state" where
  "run_cell w s c =
     (if raised s \<noteq> None then s
      else
        (case exec_body w c (body c) s of
           (s', Some e) \<Rightarrow> s'\<lparr>raised := Some (cell_line c, e)\<rparr>
         | (s', None) \<Rightarrow>
             (if timed c
              then s'\<lparr>timings := timings s' @
                     [\<lparr>t_cell = cell_line c, t_heading = heading c,
                       t_covered = drop (length (trace s)) (trace s')\<rparr>]\<rparr>
              else s')))"

definition run_cells :: "(nat \<Rightarrow> 'x option) \<Rightarrow> cell list \<Rightarrow> 'x state \<Rightarrow> 'x state" where
  "run_cells w cs s = foldl (run_cell w) s cs"

text \<open>A fresh kernel: the environment the process was started with, no variable, nothing
  issued, nothing timed, nothing raised.\<close>

definition fresh :: "env \<Rightarrow> 'x state" where
  "fresh e0 = \<lparr>environ = e0, vars = Map.empty, trace = [], timings = [], raised = None\<rparr>"

definition run_notebook :: "(nat \<Rightarrow> 'x option) \<Rightarrow> env \<Rightarrow> 'x state" where
  "run_notebook w e0 = run_cells w notebook (fresh e0)"

text \<open>The world in which nothing raises.\<close>

definition calm :: "nat \<Rightarrow> 'x option" where
  "calm n = None"

section \<open>Notions the properties are stated with\<close>





definition calm_run :: "unit state" where
  "calm_run = run_notebook calm Map.empty"

text \<open>The settings a list of statements assigns, in order, and what assigning them does to
  an environment.\<close>

fun sets_env :: "stmt \<Rightarrow> bool" where
  "sets_env (SetEnv k v) = True"
| "sets_env st = False"

fun settings_of :: "stmt list \<Rightarrow> (string \<times> string) list" where
  "settings_of [] = []"
| "settings_of (SetEnv k v # sts) = (k, v) # settings_of sts"
| "settings_of (st # sts) = settings_of sts"

definition apply_settings :: "(string \<times> string) list \<Rightarrow> env \<Rightarrow> env" where
  "apply_settings kvs e = foldl (\<lambda>m (k, v). m(k \<mapsto> v)) e kvs"

definition tuned_settings :: "(string \<times> string) list" where
  "tuned_settings = settings_of (body cell_environ)"

definition tuned_env :: "env \<Rightarrow> env" where
  "tuned_env e = apply_settings tuned_settings e"

text \<open>The values of the cache settings are decimal byte counts. Line 13 gives the raster as
  "120MB uncompressed"; line 97 prints \<^verbatim>\<open>da.nbytes/1e6\<close> as MB, so a MB is \<open>10\<^sup>6\<close> bytes.\<close>

definition digit_of :: "char \<Rightarrow> nat option" where
  "digit_of c = (let n = (of_char c :: nat) in if 48 \<le> n \<and> n \<le> 57 then Some (n - 48) else None)"

fun decimal_from :: "nat \<Rightarrow> string \<Rightarrow> nat option" where
  "decimal_from n [] = Some n"
| "decimal_from n (c # cs) =
     (case digit_of c of None \<Rightarrow> None | Some d \<Rightarrow> decimal_from (10 * n + d) cs)"

definition decimal :: "string \<Rightarrow> nat option" where
  "decimal t = (if t = [] then None else decimal_from 0 t)"

definition cache_names :: "string list" where
  "cache_names = [''GDAL_MAX_RAW_BLOCK_CACHE_SIZE'', ''GDAL_SWATH_SIZE'', ''VSI_CURL_CACHE_SIZE'']"

definition uncompressed_bytes :: nat where
  "uncompressed_bytes = 120 * 1000000"

text \<open>The four strategies the notebook compares, each with the heading it is run under. The
  settings of a strategy are those the notebook has assigned when the strategy's first open
  is reached.\<close>

datatype AccessMode = LocalDownload | RemoteDefault | RemoteTuned | RemoteChunked

fun section_of :: "AccessMode \<Rightarrow> heading" where
  "section_of LocalDownload = DownloadThenOpen"
| "section_of RemoteDefault = DefaultRemoteRead"
| "section_of RemoteTuned = GdalEnvironmentVariables"
| "section_of RemoteChunked = Dask"

fun is_open :: "call \<Rightarrow> bool" where
  "is_open (OpenRasterio x c) = True"
| "is_open (RioOpenRasterio u) = True"
| "is_open k = False"

fun opens :: "stmt \<Rightarrow> bool" where
  "opens (Bind x (Ext k)) = is_open k"
| "opens (Eval (Ext k)) = is_open k"
| "opens st = False"

definition cells_before_open :: "heading \<Rightarrow> cell list \<Rightarrow> cell list" where
  "cells_before_open h cs = takeWhile (\<lambda>c. \<not> (heading c = h \<and> list_ex opens (body c))) cs"

definition settings_for :: "AccessMode \<Rightarrow> (string \<times> string) list" where
  "settings_for m = settings_of (concat (map body (cells_before_open (section_of m) notebook)))"

text \<open>Events and timings seen without what the world answered (and without the
  environment), the events and timings under a heading.\<close>

definition ev_sig :: "'x event \<Rightarrow> nat \<times> heading \<times> call \<times> bool \<times> effect \<times> env" where
  "ev_sig e = (ev_cell e, ev_heading e, ev_call e, ev_shell e, ev_effect e, ev_env e)"

definition t_sig :: "'x timing \<Rightarrow> nat \<times> heading \<times> (nat \<times> heading \<times> call \<times> bool \<times> effect \<times> env) list" where
  "t_sig t = (t_cell t, t_heading t, map ev_sig (t_covered t))"

definition ev_phase :: "'x event \<Rightarrow> nat \<times> heading \<times> call \<times> bool \<times> effect" where
  "ev_phase e = (ev_cell e, ev_heading e, ev_call e, ev_shell e, ev_effect e)"




text \<open>Invariants and relations of the proofs: events none of which made Python raise; a
  state whose exception, if it came from outside, is the answer to the last event; two
  states that agree on all but the world's answers; a run that goes as far as another.\<close>

definition quiet :: "'x event list \<Rightarrow> bool" where
  "quiet evs = (\<forall>e\<in>set evs. ev_raised e = None \<or> ev_shell e)"


definition view :: "'x state \<Rightarrow> env \<times> (name \<rightharpoonup> pyval) \<times> (nat \<times> heading \<times> call \<times> bool \<times> effect \<times> env) list \<times> (nat \<times> heading \<times> (nat \<times> heading \<times> call \<times> bool \<times> effect \<times> env) list) list" where
  "view s = (environ s, vars s, map ev_sig (trace s), map t_sig (timings s))"

definition follows :: "'x state \<Rightarrow> 'x state \<Rightarrow> bool" where
  "follows a b \<longleftrightarrow>
     prefix (map ev_sig (trace a)) (map ev_sig (trace b)) \<and>
     prefix (map t_sig (timings a)) (map t_sig (timings b)) \<and>
     (raised a = None \<longrightarrow> raised b = None \<and> view a = view b)"


section \<open>What a statement, a cell and a run can do\<close>

lemma contract_Inl: "contract k vs = Inl e \<Longrightarrow> \<exists>x. e = AttributeError x"
  by (induction k vs rule: contract.induct) (auto split: option.splits backing.splits)

lemma issue_shape:
  assumes "issue w c k s = (s', r)"
  shows "timings s' = timings s \<and> environ s' = environ s \<and> raised s' = raised s \<and>
         (case r of
            Inl (External x) \<Rightarrow>
              (\<exists>eff. s' = s\<lparr>trace := trace s @ [mk_event c k False eff (Some x) s]\<rparr>) \<and>
              w (length (trace s)) = Some x
          | Inl e \<Rightarrow> s' = s
          | Inr v \<Rightarrow>
              (\<exists>eff vs'. s' = s\<lparr>trace := trace s @ [mk_event c k False eff None s], vars := vs'\<rparr>) \<and>
              w (length (trace s)) = None)"
  using assms
  by (auto simp: issue_def Let_def split: option.splits sum.splits prod.splits dest: contract_Inl)

lemma eval_rhs_shape:
  assumes "eval_rhs w c r s = (s', res)"
  shows "timings s' = timings s \<and> environ s' = environ s \<and> raised s' = raised s \<and>
         (case res of
            Inl (External x) \<Rightarrow>
              (\<exists>k eff. s' = s\<lparr>trace := trace s @ [mk_event c k False eff (Some x) s]\<rparr>) \<and>
              w (length (trace s)) = Some x
          | Inl e \<Rightarrow> s' = s
          | Inr v \<Rightarrow>
              s' = s \<or>
              ((\<exists>k eff vs'. s' = s\<lparr>trace := trace s @ [mk_event c k False eff None s], vars := vs'\<rparr>) \<and>
               w (length (trace s)) = None))"
proof (cases r)
  case (Ext k)
  with assms have "issue w c k s = (s', res)" by simp
  from issue_shape[OF this] show ?thesis
    by (auto split: sum.splits exc.splits)
qed (use assms in \<open>auto split: option.splits pyval.splits if_splits\<close>)

lemma exec_stmt_shape:
  assumes "exec_stmt w c st s = (s', r)"
  shows "timings s' = timings s \<and> raised s' = raised s \<and>
         (\<not> sets_env st \<longrightarrow> environ s' = environ s) \<and>
         (\<exists>evs. trace s' = trace s @ evs \<and> length evs \<le> 1 \<and>
            (\<forall>e\<in>set evs. ev_cell e = cell_line c \<and> ev_heading e = heading c \<and>
                          ev_env e = environ s \<and> ev_raised e = w (length (trace s))) \<and>
            (case r of
               Some (External x) \<Rightarrow> (\<exists>e. evs = [e] \<and> ev_raised e = Some x \<and> \<not> ev_shell e)
             | _ \<Rightarrow> (\<forall>e\<in>set evs. ev_raised e = None \<or> ev_shell e)))"
proof (cases st)
  case (Import m xs)
  obtain s1 r1 where i: "issue w c (ImportModule m) s = (s1, r1)" by (cases "issue w c (ImportModule m) s")
  from issue_shape[OF i] assms Import i show ?thesis
    by (auto simp: mk_event_def split: sum.splits exc.splits)
next
  case (SetEnv k v)
  with assms show ?thesis by (auto split: if_splits)
next
  case (Bind x rh)
  obtain s1 r1 where i: "eval_rhs w c rh s = (s1, r1)" by (cases "eval_rhs w c rh s")
  from eval_rhs_shape[OF i] assms Bind i show ?thesis
    by (auto simp: mk_event_def split: sum.splits exc.splits)
next
  case (Eval rh)
  obtain s1 r1 where i: "eval_rhs w c rh s = (s1, r1)" by (cases "eval_rhs w c rh s")
  from eval_rhs_shape[OF i] assms Eval i show ?thesis
    by (auto simp: mk_event_def split: sum.splits exc.splits)
next
  case (Del x)
  with assms show ?thesis by (auto split: if_splits)
next
  case (Shell k)
  with assms show ?thesis by (auto simp: mk_event_def)
qed

lemma exec_body_shape:
  assumes "exec_body w c sts s = (s', r)"
  shows "timings s' = timings s \<and> raised s' = raised s \<and>
         (\<exists>evs. trace s' = trace s @ evs \<and>
            (\<forall>e\<in>set evs. ev_cell e = cell_line c \<and> ev_heading e = heading c) \<and>
            ((\<forall>st\<in>set sts. \<not> sets_env st) \<longrightarrow>
               environ s' = environ s \<and> (\<forall>e\<in>set evs. ev_env e = environ s)) \<and>
            (case r of
               Some (External x) \<Rightarrow>
                 evs \<noteq> [] \<and> ev_raised (last evs) = Some x \<and> \<not> ev_shell (last evs) \<and>
                 (\<forall>e\<in>set (butlast evs). ev_raised e = None \<or> ev_shell e)
             | _ \<Rightarrow> (\<forall>e\<in>set evs. ev_raised e = None \<or> ev_shell e)))"
  using assms
proof (induction sts arbitrary: s)
  case Nil
  then show ?case by simp
next
  case (Cons st sts)
  obtain s1 r1 where st: "exec_stmt w c st s = (s1, r1)" by (cases "exec_stmt w c st s")
  from exec_stmt_shape[OF st] obtain evs1 where
    frame1: "timings s1 = timings s" "raised s1 = raised s" "\<not> sets_env st \<longrightarrow> environ s1 = environ s"
    and tr1: "trace s1 = trace s @ evs1" "length evs1 \<le> 1"
    and ev1: "\<forall>e\<in>set evs1. ev_cell e = cell_line c \<and> ev_heading e = heading c \<and> ev_env e = environ s"
    and pr1: "case r1 of
               Some (External x) \<Rightarrow> (\<exists>e. evs1 = [e] \<and> ev_raised e = Some x \<and> \<not> ev_shell e)
             | _ \<Rightarrow> (\<forall>e\<in>set evs1. ev_raised e = None \<or> ev_shell e)"
    by blast
  show ?case
  proof (cases r1)
    case (Some e)
    with Cons.prems st have eq: "s' = s1" "r = Some e" by auto
    from pr1 Some have "case r of
               Some (External x) \<Rightarrow>
                 evs1 \<noteq> [] \<and> ev_raised (last evs1) = Some x \<and> \<not> ev_shell (last evs1) \<and>
                 (\<forall>e\<in>set (butlast evs1). ev_raised e = None \<or> ev_shell e)
             | _ \<Rightarrow> (\<forall>e\<in>set evs1. ev_raised e = None \<or> ev_shell e)"
      unfolding eq by (cases e) auto
    with frame1 tr1 ev1 eq show ?thesis by auto
  next
    case None
    with Cons.prems st have rest: "exec_body w c sts s1 = (s', r)" by simp
    from Cons.IH[OF rest] obtain evs2 where
      frame2: "timings s' = timings s1" "raised s' = raised s1"
      and tr2: "trace s' = trace s1 @ evs2"
      and ev2: "\<forall>e\<in>set evs2. ev_cell e = cell_line c \<and> ev_heading e = heading c"
      and env2: "(\<forall>st\<in>set sts. \<not> sets_env st) \<longrightarrow>
               environ s' = environ s1 \<and> (\<forall>e\<in>set evs2. ev_env e = environ s1)"
      and pr2: "case r of
               Some (External x) \<Rightarrow>
                 evs2 \<noteq> [] \<and> ev_raised (last evs2) = Some x \<and> \<not> ev_shell (last evs2) \<and>
                 (\<forall>e\<in>set (butlast evs2). ev_raised e = None \<or> ev_shell e)
             | _ \<Rightarrow> (\<forall>e\<in>set evs2. ev_raised e = None \<or> ev_shell e)"
      by blast
    from pr1 None have ok1: "\<forall>e\<in>set evs1. ev_raised e = None \<or> ev_shell e" by simp
    have pr: "case r of
               Some (External x) \<Rightarrow>
                 evs1 @ evs2 \<noteq> [] \<and> ev_raised (last (evs1 @ evs2)) = Some x \<and>
                 \<not> ev_shell (last (evs1 @ evs2)) \<and>
                 (\<forall>e\<in>set (butlast (evs1 @ evs2)). ev_raised e = None \<or> ev_shell e)
             | _ \<Rightarrow> (\<forall>e\<in>set (evs1 @ evs2). ev_raised e = None \<or> ev_shell e)"
      using pr2 ok1 by (auto split: option.splits exc.splits simp: butlast_append)
    have tr: "trace s' = trace s @ (evs1 @ evs2)" using tr1 tr2 by simp
    have ev: "\<forall>e\<in>set (evs1 @ evs2). ev_cell e = cell_line c \<and> ev_heading e = heading c"
      using ev1 ev2 by auto
    have env: "(\<forall>st\<in>set (st # sts). \<not> sets_env st) \<longrightarrow>
               environ s' = environ s \<and> (\<forall>e\<in>set (evs1 @ evs2). ev_env e = environ s)"
      using frame1 env2 ev1 by auto
    have fr: "timings s' = timings s" "raised s' = raised s"
      using frame1 frame2 by simp_all
    from tr ev env pr have
      "\<exists>evs. trace s' = trace s @ evs \<and>
            (\<forall>e\<in>set evs. ev_cell e = cell_line c \<and> ev_heading e = heading c) \<and>
            ((\<forall>st\<in>set (st # sts). \<not> sets_env st) \<longrightarrow>
               environ s' = environ s \<and> (\<forall>e\<in>set evs. ev_env e = environ s)) \<and>
            (case r of
               Some (External x) \<Rightarrow>
                 evs \<noteq> [] \<and> ev_raised (last evs) = Some x \<and> \<not> ev_shell (last evs) \<and>
                 (\<forall>e\<in>set (butlast evs). ev_raised e = None \<or> ev_shell e)
             | _ \<Rightarrow> (\<forall>e\<in>set evs. ev_raised e = None \<or> ev_shell e))"
      by (intro exI[of _ "evs1 @ evs2"] conjI)
    with fr show ?thesis by (intro conjI)
  qed
qed

lemma run_cell_raised [simp]: "raised s \<noteq> None \<Longrightarrow> run_cell w s c = s"
  by (simp add: run_cell_def)

lemma run_cells_raised [simp]: "raised s \<noteq> None \<Longrightarrow> run_cells w cs s = s"
  by (induction cs) (simp_all add: run_cells_def)

lemma run_cells_Nil [simp]: "run_cells w [] s = s"
  by (simp add: run_cells_def)

lemma run_cells_Cons: "run_cells w (c # cs) s = run_cells w cs (run_cell w s c)"
  by (simp add: run_cells_def)

lemma run_cells_append: "run_cells w (cs @ ds) s = run_cells w ds (run_cells w cs s)"
  by (simp add: run_cells_def)

lemma run_cell_shape:
  assumes "raised s = None" and "s' = run_cell w s c"
  shows "\<exists>evs. trace s' = trace s @ evs \<and>
            (\<forall>e\<in>set evs. ev_cell e = cell_line c \<and> ev_heading e = heading c) \<and>
            ((\<forall>st\<in>set (body c). \<not> sets_env st) \<longrightarrow>
               environ s' = environ s \<and> (\<forall>e\<in>set evs. ev_env e = environ s)) \<and>
            (case raised s' of
               None \<Rightarrow> quiet evs \<and>
                 timings s' = timings s @
                   (if timed c then [\<lparr>t_cell = cell_line c, t_heading = heading c, t_covered = evs\<rparr>] else [])
             | Some (l, ex) \<Rightarrow> l = cell_line c \<and> timings s' = timings s \<and>
                 (case ex of
                    External x \<Rightarrow> evs \<noteq> [] \<and> ev_raised (last evs) = Some x \<and>
                       \<not> ev_shell (last evs) \<and> quiet (butlast evs)
                  | _ \<Rightarrow> quiet evs))"
proof -
  obtain s1 r where b: "exec_body w c (body c) s = (s1, r)" by (cases "exec_body w c (body c) s")
  from exec_body_shape[OF b] obtain evs where
    frame: "timings s1 = timings s" "raised s1 = raised s"
    and tr: "trace s1 = trace s @ evs"
    and ev: "\<forall>e\<in>set evs. ev_cell e = cell_line c \<and> ev_heading e = heading c"
    and env: "(\<forall>st\<in>set (body c). \<not> sets_env st) \<longrightarrow>
               environ s1 = environ s \<and> (\<forall>e\<in>set evs. ev_env e = environ s)"
    and pr: "case r of
               Some (External x) \<Rightarrow>
                 evs \<noteq> [] \<and> ev_raised (last evs) = Some x \<and> \<not> ev_shell (last evs) \<and>
                 (\<forall>e\<in>set (butlast evs). ev_raised e = None \<or> ev_shell e)
             | _ \<Rightarrow> (\<forall>e\<in>set evs. ev_raised e = None \<or> ev_shell e)"
    by blast
  show ?thesis
  proof (cases r)
    case None
    with assms b frame have "raised s' = None" 
      and "timings s' = timings s @
                   (if timed c then [\<lparr>t_cell = cell_line c, t_heading = heading c, t_covered = evs\<rparr>] else [])"
      and "trace s' = trace s @ evs" and "environ s' = environ s1"
      using tr by (auto simp: run_cell_def)
    with None pr ev env show ?thesis by (auto simp: quiet_def)
  next
    case (Some ex)
    with assms b frame have "raised s' = Some (cell_line c, ex)" "timings s' = timings s"
      "trace s' = trace s @ evs" "environ s' = environ s1"
      using tr by (auto simp: run_cell_def)
    with Some pr ev env show ?thesis by (cases ex) (auto simp: quiet_def)
  qed
qed

section \<open>The trace and the timing log only grow\<close>

lemma run_cell_timings: "prefix (timings s) (timings (run_cell w s c))"
proof (cases "raised s")
  case None
  from run_cell_shape[OF None refl, of w c] show ?thesis
    by (auto split: option.splits)
next
  case (Some a)
  then show ?thesis by simp
qed

lemma run_cells_timings: "prefix (timings s) (timings (run_cells w cs s))"
proof (induction cs arbitrary: s)
  case Nil
  show ?case by simp
next
  case (Cons c cs)
  have "prefix (timings s) (timings (run_cell w s c))" by (rule run_cell_timings)
  also have "prefix \<dots> (timings (run_cells w cs (run_cell w s c)))" by (rule Cons.IH)
  finally show ?case by (simp add: run_cells_Cons)
qed

lemma run_cell_trace: "prefix (trace s) (trace (run_cell w s c))"
proof (cases "raised s")
  case None
  from run_cell_shape[OF None refl, of w c] show ?thesis by auto
next
  case (Some a)
  then show ?thesis by simp
qed

lemma run_cells_trace: "prefix (trace s) (trace (run_cells w cs s))"
proof (induction cs arbitrary: s)
  case Nil
  show ?case by simp
next
  case (Cons c cs)
  have "prefix (trace s) (trace (run_cell w s c))" by (rule run_cell_trace)
  also have "prefix \<dots> (trace (run_cells w cs (run_cell w s c)))" by (rule Cons.IH)
  finally show ?case by (simp add: run_cells_Cons)
qed


section \<open>Exceptions from outside surface as they are\<close>

lemma quiet_append [simp]: "quiet (xs @ ys) \<longleftrightarrow> quiet xs \<and> quiet ys"
  by (auto simp: quiet_def)

lemma quiet_Nil [simp]: "quiet []"
  by (simp add: quiet_def)




section \<open>The environment changes only where it is assigned\<close>

lemma tuned_settings_eq: "tuned_settings =
     [(''GDAL_DISABLE_READDIR_ON_OPEN'', ''EMPTY_DIR''),
      (''AWS_NO_SIGN_REQUEST'', ''YES''),
      (''GDAL_MAX_RAW_BLOCK_CACHE_SIZE'', ''200000000''),
      (''GDAL_SWATH_SIZE'', ''200000000''),
      (''VSI_CURL_CACHE_SIZE'', ''200000000'')]"
  by (simp add: tuned_settings_def cell_environ_def)

lemma run_cell_environ:
  assumes "raised s = None" and "vars s ''os'' \<noteq> None"
  shows "run_cell w s cell_environ = s\<lparr>environ := tuned_env (environ s)\<rparr>"
proof -
  from assms(2) obtain v where "vars s ''os'' = Some v" by blast
  with assms(1) show ?thesis
    by (simp add: run_cell_def cell_environ_def tuned_env_def tuned_settings_def apply_settings_def)
qed

lemma decimal_200: "decimal ''200000000'' = Some 200000000"
  by (simp add: decimal_def digit_of_def)
lemma run_cells_frame:
  assumes "\<forall>c\<in>set cs. \<forall>st\<in>set (body c). \<not> sets_env st"
  shows "environ (run_cells w cs s) = environ s \<and>
         (\<exists>evs. trace (run_cells w cs s) = trace s @ evs \<and>
            (\<forall>e\<in>set evs. ev_env e = environ s \<and> (\<exists>c\<in>set cs. ev_cell e = cell_line c \<and> ev_heading e = heading c)))"
  using assms
proof (induction cs arbitrary: s)
  case Nil
  show ?case by simp
next
  case (Cons c cs)
  let ?s1 = "run_cell w s c"
  have step: "environ ?s1 = environ s \<and>
         (\<exists>evs. trace ?s1 = trace s @ evs \<and>
            (\<forall>e\<in>set evs. ev_env e = environ s \<and> ev_cell e = cell_line c \<and> ev_heading e = heading c))"
  proof (cases "raised s")
    case None
    from run_cell_shape[OF None refl, of w c] Cons.prems show ?thesis by auto
  next
    case (Some a)
    then show ?thesis by simp
  qed
  then obtain evs1 where e1: "environ ?s1 = environ s" "trace ?s1 = trace s @ evs1"
    "\<forall>e\<in>set evs1. ev_env e = environ s \<and> ev_cell e = cell_line c \<and> ev_heading e = heading c"
    by blast
  from Cons.IH[of ?s1] Cons.prems obtain evs2 where e2: "environ (run_cells w cs ?s1) = environ ?s1"
    "trace (run_cells w cs ?s1) = trace ?s1 @ evs2"
    "\<forall>e\<in>set evs2. ev_env e = environ ?s1 \<and> (\<exists>c\<in>set cs. ev_cell e = cell_line c \<and> ev_heading e = heading c)"
    by auto
  have "trace (run_cells w (c # cs) s) = trace s @ (evs1 @ evs2)"
    using e1 e2 by (simp add: run_cells_Cons)
  moreover have "\<forall>e\<in>set (evs1 @ evs2). ev_env e = environ s \<and>
      (\<exists>c'\<in>set (c # cs). ev_cell e = cell_line c' \<and> ev_heading e = heading c')"
    using e1 e2 by auto
  moreover have "environ (run_cells w (c # cs) s) = environ s"
    using e1 e2 by (simp add: run_cells_Cons)
  ultimately show ?case by blast
qed

section \<open>Every run goes as far as the run in which nothing raises\<close>

lemma view_length: "view (s :: 'x state) = view (t :: 'x state) \<Longrightarrow> length (trace s) = length (trace t)"
  by (auto simp: view_def dest: map_eq_imp_length_eq)

lemma issue_sim:
  assumes v: "view (s :: 'x state) = view (t :: 'x state)"
    and a: "issue w c k s = (s', r)"
    and b: "issue calm c k t = (t', r')"
  shows "map ev_sig (trace s') = map ev_sig (trace t') \<and> timings s' = timings s \<and> timings t' = timings t \<and>
         (\<forall>y. r = Inr y \<longrightarrow> r' = Inr y \<and> environ s' = environ t' \<and> vars s' = vars t')"
  using a b v view_length[OF v]
  by (auto simp: issue_def Let_def calm_def view_def mk_event_def ev_sig_def
           split: option.splits sum.splits prod.splits)

lemma eval_rhs_sim:
  assumes v: "view (s :: 'x state) = view (t :: 'x state)"
    and a: "eval_rhs w c rh s = (s', r)"
    and b: "eval_rhs calm c rh t = (t', r')"
  shows "map ev_sig (trace s') = map ev_sig (trace t') \<and> timings s' = timings s \<and> timings t' = timings t \<and>
         (\<forall>y. r = Inr y \<longrightarrow> r' = Inr y \<and> environ s' = environ t' \<and> vars s' = vars t')"
proof (cases rh)
  case (Ext k)
  with a b have "issue w c k s = (s', r)" "issue calm c k t = (t', r')" by simp_all
  from issue_sim[OF v this] show ?thesis .
qed (use a b v in \<open>auto simp: view_def split: option.splits pyval.splits if_splits\<close>)

lemma exec_stmt_sim:
  assumes v: "view (s :: 'x state) = view (t :: 'x state)"
    and a: "exec_stmt w c st s = (s', r)"
    and b: "exec_stmt calm c st t = (t', r')"
  shows "map ev_sig (trace s') = map ev_sig (trace t') \<and>
         (r = None \<longrightarrow> r' = None \<and> view s' = view t')"
proof (cases st)
  case (Import m xs)
  obtain s1 r1 where i: "issue w c (ImportModule m) s = (s1, r1)" by (cases "issue w c (ImportModule m) s")
  obtain t1 q1 where j: "issue calm c (ImportModule m) t = (t1, q1)" by (cases "issue calm c (ImportModule m) t")
  from issue_sim[OF v i j] a b i j Import v show ?thesis
    by (auto simp: view_def split: sum.splits)
next
  case (SetEnv k x)
  with a b v show ?thesis by (auto simp: view_def split: if_splits)
next
  case (Bind x rh)
  obtain s1 r1 where i: "eval_rhs w c rh s = (s1, r1)" by (cases "eval_rhs w c rh s")
  obtain t1 q1 where j: "eval_rhs calm c rh t = (t1, q1)" by (cases "eval_rhs calm c rh t")
  from eval_rhs_sim[OF v i j] a b i j Bind v show ?thesis
    by (auto simp: view_def split: sum.splits)
next
  case (Eval rh)
  obtain s1 r1 where i: "eval_rhs w c rh s = (s1, r1)" by (cases "eval_rhs w c rh s")
  obtain t1 q1 where j: "eval_rhs calm c rh t = (t1, q1)" by (cases "eval_rhs calm c rh t")
  from eval_rhs_sim[OF v i j] a b i j Eval v show ?thesis
    by (auto simp: view_def split: sum.splits)
next
  case (Del x)
  with a b v show ?thesis by (auto simp: view_def split: if_splits)
next
  case (Shell k)
  with a b v view_length[OF v] show ?thesis by (auto simp: view_def mk_event_def ev_sig_def)
qed

lemma exec_body_trace:
  "exec_body w c sts s = (s', r) \<Longrightarrow> prefix (trace s) (trace s')"
  using exec_body_shape[of w c sts s s' r] by auto

lemma exec_body_sim:
  assumes "view (s :: 'x state) = view (t :: 'x state)"
    and "exec_body w c sts s = (s', r)"
    and "exec_body calm c sts t = (t', r')"
  shows "prefix (map ev_sig (trace s')) (map ev_sig (trace t')) \<and>
         (r = None \<longrightarrow> r' = None \<and> view s' = view t')"
  using assms
proof (induction sts arbitrary: s t)
  case Nil
  then show ?case by (auto simp: view_def)
next
  case (Cons st sts)
  obtain s1 r1 where a: "exec_stmt w c st s = (s1, r1)" by (cases "exec_stmt w c st s")
  obtain t1 q1 where b: "exec_stmt calm c st t = (t1, q1)" by (cases "exec_stmt calm c st t")
  from exec_stmt_sim[OF Cons.prems(1) a b]
  have eq: "map ev_sig (trace s1) = map ev_sig (trace t1)"
    and ok: "r1 = None \<longrightarrow> q1 = None \<and> view s1 = view t1" by simp_all
  show ?case
  proof (cases r1)
    case None
    with ok have q: "q1 = None" and v1: "view s1 = view t1" by simp_all
    from Cons.prems(2) a None have a': "exec_body w c sts s1 = (s', r)" by simp
    from Cons.prems(3) b q have b': "exec_body calm c sts t1 = (t', r')" by simp
    from Cons.IH[OF v1 a' b'] show ?thesis .
  next
    case (Some e)
    with Cons.prems(2) a have s': "s' = s1" "r = Some e" by simp_all
    have "prefix (trace t1) (trace t')"
    proof (cases q1)
      case None
      with Cons.prems(3) b have "exec_body calm c sts t1 = (t', r')" by simp
      then show ?thesis by (rule exec_body_trace)
    next
      case (Some e')
      with Cons.prems(3) b show ?thesis by simp
    qed
    then have "prefix (map ev_sig (trace t1)) (map ev_sig (trace t'))"
      by (rule map_mono_prefix)
    with eq s' show ?thesis by simp
  qed
qed
lemma run_cell_sim:
  assumes v: "view (s :: 'x state) = view (t :: 'x state)"
    and rs: "raised s = None" and rt: "raised t = None"
  shows "follows (run_cell w s c) (run_cell calm t c)"
proof -
  obtain s1 r where a: "exec_body w c (body c) s = (s1, r)" by (cases "exec_body w c (body c) s")
  obtain t1 q where b: "exec_body calm c (body c) t = (t1, q)" by (cases "exec_body calm c (body c) t")
  from exec_body_sim[OF v a b]
  have pre: "prefix (map ev_sig (trace s1)) (map ev_sig (trace t1))"
    and ok: "r = None \<longrightarrow> q = None \<and> view s1 = view t1" by simp_all
  from exec_body_shape[OF a] have fs: "timings s1 = timings s" "raised s1 = raised s" by simp_all
  from exec_body_shape[OF b] have ft: "timings t1 = timings t" "raised t1 = raised t" by simp_all
  from v have tm: "map t_sig (timings s) = map t_sig (timings t)" by (simp add: view_def)
  show ?thesis
  proof (cases r)
    case None
    with ok have q: "q = None" and v1: "view s1 = view t1" by simp_all
    have cov: "map ev_sig (drop (length (trace s)) (trace s1)) = map ev_sig (drop (length (trace t)) (trace t1))"
      using v1 view_length[OF v] by (simp add: view_def drop_map[symmetric])
    show ?thesis
      using None q a b rs rt fs ft v1 cov
      by (simp add: follows_def run_cell_def view_def t_sig_def)
  next
    case (Some e)
    have "prefix (map t_sig (timings s)) (map t_sig (timings (run_cell calm t c)))"
      unfolding tm by (rule map_mono_prefix) (rule run_cell_timings)
    moreover have "prefix (map ev_sig (trace t1)) (map ev_sig (trace (run_cell calm t c)))"
      using b rt by (intro map_mono_prefix) (auto simp: run_cell_def split: option.splits)
    ultimately show ?thesis
      using Some a rs fs pre by (auto simp: follows_def run_cell_def)
  qed
qed

lemma follows_stuck:
  assumes "follows a b" and "raised a \<noteq> None"
  shows "follows a (run_cells calm cs b)"
proof -
  have "prefix (map ev_sig (trace b)) (map ev_sig (trace (run_cells calm cs b)))"
    by (intro map_mono_prefix run_cells_trace)
  moreover have "prefix (map t_sig (timings b)) (map t_sig (timings (run_cells calm cs b)))"
    by (intro map_mono_prefix run_cells_timings)
  ultimately show ?thesis using assms by (auto simp: follows_def)
qed

lemma run_cells_sim:
  assumes "view (s :: 'x state) = view (t :: 'x state)"
    and "raised s = None" and "raised t = None"
  shows "follows (run_cells w cs s) (run_cells calm cs t)"
  using assms
proof (induction cs arbitrary: s t)
  case Nil
  then show ?case by (simp add: follows_def view_def)
next
  case (Cons c cs)
  let ?a = "run_cell w s c" and ?b = "run_cell calm t c"
  have f: "follows ?a ?b" by (rule run_cell_sim[OF Cons.prems])
  show ?case
  proof (cases "raised ?a")
    case None
    with f have "view ?a = view ?b" "raised ?b = None" by (simp_all add: follows_def)
    from Cons.IH[OF this(1) None this(2)] show ?thesis by (simp add: run_cells_Cons)
  next
    case (Some e)
    then have "raised ?a \<noteq> None" by simp
    from follows_stuck[OF f this, of cs] this show ?thesis by (simp add: run_cells_Cons)
  qed
qed






lemma calm_trace: "map ev_phase (trace (run_notebook calm e0)) =
 [(24, Preamble, ImportModule ''os'', False, Unrelated),
  (24, Preamble, ImportModule ''xarray'', False, Unrelated),
  (24, Preamble, ImportModule ''rasterio'', False, Unrelated),
  (24, Preamble, ImportModule ''rioxarray'', False, Unrelated),
  (24, Preamble, ImportModule ''hvplot.xarray'', False, Unrelated),
  (24, Preamble, ImportModule ''gdal'', False, Unrelated),
  (24, Preamble, ImportModule ''requests'', False, Unrelated),
  (39, Preamble, ModuleVersion ''xr'', False, Unrelated),
  (39, Preamble, ModuleVersion ''rasterio'', False, Unrelated),
  (39, Preamble, GdalVersionInfo, False, Unrelated),
  (61, Preamble, RequestsGet ''url'', False, Unrelated),
  (61, Preamble, RespStatus ''resp'', False, Unrelated),
  (84, DownloadThenOpen, CurlDownload ''url'', True, Download),
  (84, DownloadThenOpen, OpenRasterio ''localFile'' None, False, Metadata),
  (97, DownloadThenOpen, NBytes ''da'', False, Unrelated),
  (107, DownloadThenOpen, Mean ''da'', False, Pixels),
  (145, DefaultRemoteRead, OpenRasterio ''url'' None, False, Metadata),
  (156, DefaultRemoteRead, Mean ''da'', False, Pixels),
  (174, DefaultRemoteRead, OpenRasterio ''url'' None, False, Metadata),
  (174, DefaultRemoteRead, Mean ''da'', False, Pixels),
  (244, GdalEnvironmentVariables, OpenRasterio ''url'' None, False, Metadata),
  (255, GdalEnvironmentVariables, Mean ''da'', False, Pixels),
  (302, Dask, ImportModule ''dask.distributed'', False, Unrelated),
  (302, Dask, LocalCluster, False, Unrelated),
  (302, Dask, Client, False, Unrelated),
  (314, Dask, OpenRasterio ''url'' (Some ''chunks''), False, Metadata),
  (326, Dask, Mean ''da'', False, Graph),
  (338, Dask, GraphVisualize ''ave'', False, Unrelated),
  (355, Dask, Compute ''ave'', False, Pixels),
  (391, Visualize, RioOpenRasterio ''url'', False, Metadata),
  (391, Visualize, HvplotImage ''da'' ''url'', False, Pixels)]"
  by code_simp


lemma calm_os: "vars (run_cells calm cells_before_environ (fresh e0)) ''os'' = Some Module"
  by code_simp

section \<open>The environment before and after the settings cell\<close>

lemma raised_line:
  assumes "raised s = None" and "raised (run_cells w cs s) = Some (l, x)"
  shows "\<exists>c\<in>set cs. l = cell_line c"
  using assms
proof (induction cs arbitrary: s)
  case Nil
  then show ?case by simp
next
  case (Cons c cs)
  show ?case
  proof (cases "raised (run_cell w s c)")
    case None
    from Cons.IH[OF None] Cons.prems(2) show ?thesis by (auto simp: run_cells_Cons)
  next
    case (Some a)
    with Cons.prems(2) have "raised (run_cell w s c) = Some (l, x)" by (simp add: run_cells_Cons)
    with run_cell_shape[OF Cons.prems(1) refl, of w c] show ?thesis by auto
  qed
qed

lemma no_settings_elsewhere:
  "\<forall>c\<in>set cells_before_environ. \<forall>st\<in>set (body c). \<not> sets_env st"
  "\<forall>c\<in>set cells_after_environ. \<forall>st\<in>set (body c). \<not> sets_env st"
  by (simp_all add: cells_before_environ_def cells_after_environ_def cell_imports_def
      cell_versions_def cell_paths_def cell_validate_def cell_download_open_def cell_nbytes_def
      cell_local_mean_def cell_local_del_def cell_default_open_def cell_default_mean_def
      cell_default_again_def cell_default_del_def cell_tuned_open_def cell_tuned_mean_def
      cell_tuned_del_def cell_cluster_def cell_chunked_open_def cell_chunked_mean_def
      cell_graph_def cell_compute_def cell_plot_def cell_empty_def)

lemma os_imported:
  fixes w :: "nat \<Rightarrow> 'x option"
  assumes "raised (run_cells w cells_before_environ (fresh e0)) = None"
  shows "vars (run_cells w cells_before_environ (fresh e0)) ''os'' = Some Module"
proof -
  have "follows (run_cells w cells_before_environ (fresh e0))
                (run_cells (calm :: nat \<Rightarrow> 'x option) cells_before_environ (fresh e0))"
    by (rule run_cells_sim) (simp_all add: fresh_def)
  with assms have "vars (run_cells w cells_before_environ (fresh e0)) =
                   vars (run_cells (calm :: nat \<Rightarrow> 'x option) cells_before_environ (fresh e0))"
    by (simp add: follows_def view_def)
  then show ?thesis by (simp add: calm_os)
qed

lemma environment_stages:
  fixes w :: "nat \<Rightarrow> 'x option"
  shows "\<exists>evs1 evs2.
      trace (run_notebook w e0) = evs1 @ evs2 \<and>
      (\<forall>e\<in>set evs1. ev_env e = e0 \<and>
         (\<exists>c\<in>set cells_before_environ. ev_cell e = cell_line c \<and> ev_heading e = heading c)) \<and>
      (\<forall>e\<in>set evs2. ev_env e = tuned_env e0 \<and>
         (\<exists>c\<in>set cells_after_environ. ev_cell e = cell_line c \<and> ev_heading e = heading c)) \<and>
      (case raised (run_notebook w e0) of
         None \<Rightarrow> environ (run_notebook w e0) = tuned_env e0
       | Some (l, x) \<Rightarrow>
           (environ (run_notebook w e0) = e0 \<and> (\<exists>c\<in>set cells_before_environ. l = cell_line c)) \<or>
           (environ (run_notebook w e0) = tuned_env e0 \<and> (\<exists>c\<in>set cells_after_environ. l = cell_line c)))"
proof -
  let ?s1 = "run_cells w cells_before_environ (fresh e0)"
  let ?s2 = "run_cell w ?s1 cell_environ"
  let ?s3 = "run_cells w cells_after_environ ?s2"
  have nb: "run_notebook w e0 = ?s3"
    by (simp add: run_notebook_def notebook_def run_cells_append run_cells_Cons)
  from run_cells_frame[OF no_settings_elsewhere(1), of w "fresh e0"]
  obtain evs1 where e1: "environ ?s1 = e0" "trace ?s1 = evs1"
    "\<forall>e\<in>set evs1. ev_env e = e0 \<and>
       (\<exists>c\<in>set cells_before_environ. ev_cell e = cell_line c \<and> ev_heading e = heading c)"
    by (auto simp: fresh_def)
  show ?thesis
  proof (cases "raised ?s1")
    case None
    from os_imported[OF None] have os: "vars ?s1 ''os'' \<noteq> None" by simp
    have s2: "?s2 = ?s1\<lparr>environ := tuned_env e0\<rparr>"
      using run_cell_environ[OF None os, of w] e1(1) by simp
    then have r2: "raised ?s2 = None" "environ ?s2 = tuned_env e0" "trace ?s2 = evs1"
      using None e1 by simp_all
    from run_cells_frame[OF no_settings_elsewhere(2), of w ?s2] r2
    obtain evs2 where e2: "environ ?s3 = tuned_env e0" "trace ?s3 = evs1 @ evs2"
      "\<forall>e\<in>set evs2. ev_env e = tuned_env e0 \<and>
         (\<exists>c\<in>set cells_after_environ. ev_cell e = cell_line c \<and> ev_heading e = heading c)"
      by auto
    have "case raised ?s3 of
         None \<Rightarrow> environ ?s3 = tuned_env e0
       | Some (l, x) \<Rightarrow>
           (environ ?s3 = e0 \<and> (\<exists>c\<in>set cells_before_environ. l = cell_line c)) \<or>
           (environ ?s3 = tuned_env e0 \<and> (\<exists>c\<in>set cells_after_environ. l = cell_line c))"
      using e2(1) raised_line[OF r2(1), of w cells_after_environ]
      by (auto split: option.splits)
    with e1 e2 show ?thesis unfolding nb by blast
  next
    case (Some a)
    then have stuck: "?s3 = ?s1" by simp
    obtain l x where a: "a = (l, x)" by (cases a)
    have "raised (fresh e0 :: 'x state) = None" by (simp add: fresh_def)
    from raised_line[OF this, of w cells_before_environ l x] Some a
    have "\<exists>c\<in>set cells_before_environ. l = cell_line c" by simp
    with Some a e1(1) have "case raised ?s1 of
         None \<Rightarrow> environ ?s1 = tuned_env e0
       | Some (l, x) \<Rightarrow>
           (environ ?s1 = e0 \<and> (\<exists>c\<in>set cells_before_environ. l = cell_line c)) \<or>
           (environ ?s1 = tuned_env e0 \<and> (\<exists>c\<in>set cells_after_environ. l = cell_line c))"
      by simp
    moreover have "trace ?s1 = evs1 @ []" using e1 by simp
    ultimately show ?thesis unfolding nb stuck using e1(3) by (intro exI[of _ evs1] exI[of _ "[]"]) simp
  qed
qed

lemma lines_before: "c \<in> set cells_before_environ \<Longrightarrow>
    cell_line c < 230 \<and> heading c \<in> {Preamble, DownloadThenOpen, DefaultRemoteRead}"
  by (auto simp: cells_before_environ_def cell_imports_def
      cell_versions_def cell_paths_def cell_validate_def cell_download_open_def cell_nbytes_def
      cell_local_mean_def cell_local_del_def cell_default_open_def cell_default_mean_def
      cell_default_again_def cell_default_del_def)

lemma lines_after: "c \<in> set cells_after_environ \<Longrightarrow>
    230 < cell_line c \<and> heading c \<in> {GdalEnvironmentVariables, Dask, Visualize}"
  by (auto simp: cells_after_environ_def cell_tuned_open_def cell_tuned_mean_def
      cell_tuned_del_def cell_cluster_def cell_chunked_open_def cell_chunked_mean_def
      cell_graph_def cell_compute_def cell_plot_def cell_empty_def)

lemma event_environment:
  fixes w :: "nat \<Rightarrow> 'x option"
  assumes "e \<in> set (trace (run_notebook w e0))"
  shows "(ev_cell e < 230 \<and> ev_heading e \<in> {Preamble, DownloadThenOpen, DefaultRemoteRead} \<and> ev_env e = e0) \<or>
         (230 < ev_cell e \<and> ev_heading e \<in> {GdalEnvironmentVariables, Dask, Visualize} \<and> ev_env e = tuned_env e0)"
proof -
  from environment_stages[of w e0] obtain evs1 evs2 where
    tr: "trace (run_notebook w e0) = evs1 @ evs2"
    and b: "\<forall>e\<in>set evs1. ev_env e = e0 \<and>
         (\<exists>c\<in>set cells_before_environ. ev_cell e = cell_line c \<and> ev_heading e = heading c)"
    and a: "\<forall>e\<in>set evs2. ev_env e = tuned_env e0 \<and>
         (\<exists>c\<in>set cells_after_environ. ev_cell e = cell_line c \<and> ev_heading e = heading c)"
    by blast
  from assms tr consider "e \<in> set evs1" | "e \<in> set evs2" by auto
  then show ?thesis
  proof cases
    case 1
    with b obtain c where "c \<in> set cells_before_environ" "ev_cell e = cell_line c"
      "ev_heading e = heading c" "ev_env e = e0" by blast
    with lines_before[of c] show ?thesis by simp
  next
    case 2
    with a obtain c where "c \<in> set cells_after_environ" "ev_cell e = cell_line c"
      "ev_heading e = heading c" "ev_env e = tuned_env e0" by blast
    with lines_after[of c] show ?thesis by simp
  qed
qed

lemma settings_for_eq:
  "settings_for LocalDownload = []"
  "settings_for RemoteDefault = []"
  "settings_for RemoteTuned = tuned_settings"
  "settings_for RemoteChunked = tuned_settings"
  by code_simp+

section \<open>Three runs, evaluated\<close>

lemma nth_of_map: "map f xs = ys \<Longrightarrow> i < length ys \<Longrightarrow> f (xs ! i) = ys ! i \<and> i < length xs"
  by (metis length_map nth_map)

lemma calm_run_event:
  "length (trace calm_run) = 31"
  "ev_phase (trace calm_run ! 16) = (145, DefaultRemoteRead, OpenRasterio ''url'' None, False, Metadata)"
  "ev_phase (trace calm_run ! 20) = (244, GdalEnvironmentVariables, OpenRasterio ''url'' None, False, Metadata)"
  "ev_phase (trace calm_run ! 28) = (355, Dask, Compute ''ave'', False, Pixels)"
proof -
  let ?t = "trace (run_notebook (calm :: nat \<Rightarrow> unit option) Map.empty)"
  note n = nth_of_map[where xs = ?t and f = ev_phase, OF calm_trace]
  from n[of 30] show "length (trace calm_run) = 31"
    using arg_cong[where x = "map ev_phase ?t", OF calm_trace, of length]
    by (simp add: calm_run_def)
  from n[of 16] show "ev_phase (trace calm_run ! 16) =
      (145, DefaultRemoteRead, OpenRasterio ''url'' None, False, Metadata)"
    by (simp add: calm_run_def)
  from n[of 20] show "ev_phase (trace calm_run ! 20) =
      (244, GdalEnvironmentVariables, OpenRasterio ''url'' None, False, Metadata)"
    by (simp add: calm_run_def)
  from n[of 28] show "ev_phase (trace calm_run ! 28) = (355, Dask, Compute ''ave'', False, Pixels)"
    by (simp add: calm_run_def)
qed


lemma calm_run_completes: "raised calm_run = None"
  unfolding calm_run_def by code_simp



section \<open>The claims\<close>





text \<open>
  C3 does not hold as stated: the strategy of the "Default remote read" heading has no
  setting at all; the notebook runs it on the library's defaults.
\<close>

theorem default_read_has_no_settings:
  "settings_for RemoteDefault = []"
  by code_simp

text \<open>
  C3, amended. The settings of a strategy depend on the strategy alone; they are the five
  assignments of lines 230-234 for the tuned and the chunked strategy and none for the
  download and the default strategy; assigning the settings of a strategy twice gives the
  environment that assigning them once gives, and running the settings cell twice leaves
  the state that running it once leaves.
\<close>

theorem settings_per_strategy_idempotent:
  "settings_for LocalDownload = [] \<and>
   settings_for RemoteDefault = [] \<and>
   settings_for RemoteTuned =
     [(''GDAL_DISABLE_READDIR_ON_OPEN'', ''EMPTY_DIR''),
      (''AWS_NO_SIGN_REQUEST'', ''YES''),
      (''GDAL_MAX_RAW_BLOCK_CACHE_SIZE'', ''200000000''),
      (''GDAL_SWATH_SIZE'', ''200000000''),
      (''VSI_CURL_CACHE_SIZE'', ''200000000'')] \<and>
   settings_for RemoteChunked = settings_for RemoteTuned \<and>
   apply_settings (settings_for m) (apply_settings (settings_for m) e) =
     apply_settings (settings_for m) e \<and>
   run_cell w (run_cell w s cell_environ) cell_environ = run_cell w s cell_environ"
proof -
  have idem: "apply_settings (settings_for m) (apply_settings (settings_for m) e) =
     apply_settings (settings_for m) e"
    by (cases m) (simp_all add: settings_for_eq tuned_settings_eq apply_settings_def)
  have twice: "run_cell w (run_cell w s cell_environ) cell_environ = run_cell w s cell_environ"
  proof (cases "raised s = None \<and> vars s ''os'' \<noteq> None")
    case True
    then have 1: "run_cell w s cell_environ = s\<lparr>environ := tuned_env (environ s)\<rparr>"
      by (simp add: run_cell_environ)
    from True have "run_cell w (s\<lparr>environ := tuned_env (environ s)\<rparr>) cell_environ =
        s\<lparr>environ := tuned_env (environ s), environ := tuned_env (tuned_env (environ s))\<rparr>"
      using run_cell_environ[of "s\<lparr>environ := tuned_env (environ s)\<rparr>" w] by simp
    moreover have "tuned_env (tuned_env (environ s)) = tuned_env (environ s)"
      by (simp add: tuned_env_def tuned_settings_eq apply_settings_def)
    ultimately show ?thesis using 1 by simp
  next
    case False
    then have "raised (run_cell w s cell_environ) \<noteq> None"
      by (auto simp: run_cell_def cell_environ_def)
    then show ?thesis by simp
  qed
  from idem twice show ?thesis
    by (simp add: settings_for_eq tuned_settings_eq)
qed

text \<open>
  C5. In every run, an open issued under a strategy's heading sees the starting environment
  with exactly that strategy's settings assigned: the starting environment itself for the
  download and the default strategy, the starting environment with the five names of lines
  230-234 set to their values, and nothing else changed, for the tuned and the chunked
  strategy (the Dask cells assign nothing of their own and run on the tuned settings).
  Nothing issued before line 230 sees any of the assignments.
\<close>

theorem opens_see_their_strategys_settings:
  fixes w :: "nat \<Rightarrow> 'x option"
  shows "(\<forall>e\<in>set (trace (run_notebook w e0)).
        is_open (ev_call e) \<and> ev_heading e = section_of m \<longrightarrow>
        ev_env e = apply_settings (settings_for m) e0) \<and>
     (\<forall>e\<in>set (trace (run_notebook w e0)). ev_cell e < 230 \<longrightarrow> ev_env e = e0) \<and>
     apply_settings (settings_for LocalDownload) e0 = e0 \<and>
     apply_settings (settings_for RemoteDefault) e0 = e0 \<and>
     apply_settings (settings_for RemoteTuned) e0 =
       e0(''GDAL_DISABLE_READDIR_ON_OPEN'' \<mapsto> ''EMPTY_DIR'',
          ''AWS_NO_SIGN_REQUEST'' \<mapsto> ''YES'',
          ''GDAL_MAX_RAW_BLOCK_CACHE_SIZE'' \<mapsto> ''200000000'',
          ''GDAL_SWATH_SIZE'' \<mapsto> ''200000000'',
          ''VSI_CURL_CACHE_SIZE'' \<mapsto> ''200000000'') \<and>
     apply_settings (settings_for RemoteChunked) e0 = apply_settings (settings_for RemoteTuned) e0"
proof -
  have 1: "ev_env e = apply_settings (settings_for m) e0"
    if "e \<in> set (trace (run_notebook w e0))" and "ev_heading e = section_of m" for e
    using event_environment[OF that(1)] that(2)
    by (cases m) (auto simp: settings_for_eq tuned_env_def apply_settings_def)
  have 2: "ev_env e = e0" if "e \<in> set (trace (run_notebook w e0))" and "ev_cell e < 230" for e
    using event_environment[OF that(1)] that(2) by auto
  have 3: "apply_settings (settings_for LocalDownload) e0 = e0"
    "apply_settings (settings_for RemoteDefault) e0 = e0"
    "apply_settings (settings_for RemoteTuned) e0 =
       e0(''GDAL_DISABLE_READDIR_ON_OPEN'' \<mapsto> ''EMPTY_DIR'',
          ''AWS_NO_SIGN_REQUEST'' \<mapsto> ''YES'',
          ''GDAL_MAX_RAW_BLOCK_CACHE_SIZE'' \<mapsto> ''200000000'',
          ''GDAL_SWATH_SIZE'' \<mapsto> ''200000000'',
          ''VSI_CURL_CACHE_SIZE'' \<mapsto> ''200000000'')"
    "apply_settings (settings_for RemoteChunked) e0 = apply_settings (settings_for RemoteTuned) e0"
    by (simp_all add: settings_for_eq tuned_settings_eq apply_settings_def)
  from 1 2 3 show ?thesis by blast
qed

text \<open>C5, at the run in which nothing raises, started with an empty environment: the open
  of line 246 (interaction 20) sees the five settings, the open of line 147 (interaction
  16) sees none.\<close>

theorem opens_see_their_strategys_settings_witness:
  "trace calm_run ! 20 \<in> set (trace calm_run) \<and>
   is_open (ev_call (trace calm_run ! 20)) \<and>
   ev_heading (trace calm_run ! 20) = section_of RemoteTuned \<and>
   ev_env (trace calm_run ! 20) = apply_settings (settings_for RemoteTuned) Map.empty \<and>
   ev_env (trace calm_run ! 20) ''GDAL_DISABLE_READDIR_ON_OPEN'' = Some ''EMPTY_DIR'' \<and>
   trace calm_run ! 16 \<in> set (trace calm_run) \<and>
   ev_cell (trace calm_run ! 16) < 230 \<and>
   ev_env (trace calm_run ! 16) = Map.empty"
proof -
  have a: "is_open (ev_call (trace calm_run ! 20))"
    "ev_heading (trace calm_run ! 20) = section_of RemoteTuned"
    "ev_cell (trace calm_run ! 16) < 230"
    using calm_run_event(2,3) by (simp_all add: ev_phase_def)
  have m: "trace calm_run ! 20 \<in> set (trace calm_run)"
    "trace calm_run ! 16 \<in> set (trace calm_run)"
    by (simp_all add: calm_run_event(1))
  have t: "(\<forall>e\<in>set (trace calm_run).
        is_open (ev_call e) \<and> ev_heading e = section_of RemoteTuned \<longrightarrow>
        ev_env e = apply_settings (settings_for RemoteTuned) Map.empty) \<and>
     (\<forall>e\<in>set (trace calm_run). ev_cell e < 230 \<longrightarrow> ev_env e = Map.empty) \<and>
     apply_settings (settings_for RemoteTuned) Map.empty =
       [''GDAL_DISABLE_READDIR_ON_OPEN'' \<mapsto> ''EMPTY_DIR'',
        ''AWS_NO_SIGN_REQUEST'' \<mapsto> ''YES'',
        ''GDAL_MAX_RAW_BLOCK_CACHE_SIZE'' \<mapsto> ''200000000'',
        ''GDAL_SWATH_SIZE'' \<mapsto> ''200000000'',
        ''VSI_CURL_CACHE_SIZE'' \<mapsto> ''200000000'']"
    unfolding calm_run_def
    using opens_see_their_strategys_settings[of "calm :: nat \<Rightarrow> unit option" Map.empty RemoteTuned]
    by simp
  from t m a have 1: "ev_env (trace calm_run ! 20) = apply_settings (settings_for RemoteTuned) Map.empty"
    and 2: "ev_env (trace calm_run ! 16) = Map.empty"
    by blast+
  from t have "apply_settings (settings_for RemoteTuned) Map.empty ''GDAL_DISABLE_READDIR_ON_OPEN''
      = Some ''EMPTY_DIR''"
    by simp
  with 1 2 m a show ?thesis by simp
qed





text \<open>
  C9. Whenever the settings cell runs (nothing has raised and \<^verbatim>\<open>os\<close> is imported), the
  three cache settings all get the value \<^verbatim>\<open>200000000\<close>, which reads as 200000000 bytes,
  more than the 120 MB of the uncompressed raster.
\<close>

theorem tuned_cache_sizes_cover_raster:
  assumes "raised s = None" and "vars s ''os'' \<noteq> None"
  shows "(\<forall>k\<in>set cache_names. environ (run_cell w s cell_environ) k = Some ''200000000'') \<and>
         decimal ''200000000'' = Some 200000000 \<and>
         uncompressed_bytes < 200000000"
  using run_cell_environ[OF assms, of w]
  by (simp add: decimal_200 cache_names_def tuned_env_def tuned_settings_eq apply_settings_def
      uncompressed_bytes_def)

text \<open>C9, at a fresh kernel in which only \<^verbatim>\<open>os\<close> is imported.\<close>

theorem tuned_cache_sizes_cover_raster_witness:
  "raised ((fresh Map.empty :: unit state)\<lparr>vars := [''os'' \<mapsto> Module]\<rparr>) = None \<and>
   vars ((fresh Map.empty :: unit state)\<lparr>vars := [''os'' \<mapsto> Module]\<rparr>) ''os'' = Some Module \<and>
   environ (run_cell calm ((fresh Map.empty :: unit state)\<lparr>vars := [''os'' \<mapsto> Module]\<rparr>) cell_environ)
     ''GDAL_MAX_RAW_BLOCK_CACHE_SIZE'' = Some ''200000000'' \<and>
   environ (run_cell calm ((fresh Map.empty :: unit state)\<lparr>vars := [''os'' \<mapsto> Module]\<rparr>) cell_environ)
     ''GDAL_SWATH_SIZE'' = Some ''200000000'' \<and>
   environ (run_cell calm ((fresh Map.empty :: unit state)\<lparr>vars := [''os'' \<mapsto> Module]\<rparr>) cell_environ)
     ''VSI_CURL_CACHE_SIZE'' = Some ''200000000'' \<and>
   decimal ''200000000'' = Some 200000000 \<and>
   uncompressed_bytes < 200000000"
  using tuned_cache_sizes_cover_raster[of "(fresh Map.empty :: unit state)\<lparr>vars := [''os'' \<mapsto> Module]\<rparr>" calm]
  by (simp add: fresh_def cache_names_def)

text \<open>
  C10. In every run, everything issued after the settings cell of line 230, the opens and
  computes of the tuned, the Dask and the plotting cells included, runs under the starting
  environment with the five settings assigned; no cell after line 230 assigns to the
  environment; and however the run ends, normally or with an exception in any cell after
  line 230, the environment it leaves still has the five settings: nothing restores or
  clears them. (A run that raises before line 230 never assigns them.)
\<close>

theorem tuned_environment_is_never_restored:
  fixes w :: "nat \<Rightarrow> 'x option"
  shows "(\<forall>e\<in>set (trace (run_notebook w e0)). 230 < ev_cell e \<longrightarrow> ev_env e = tuned_env e0) \<and>
     (\<forall>c\<in>set cells_after_environ. \<forall>st\<in>set (body c). \<not> sets_env st) \<and>
     (case raised (run_notebook w e0) of
        None \<Rightarrow> environ (run_notebook w e0) = tuned_env e0
      | Some (l, x) \<Rightarrow> environ (run_notebook w e0) = (if 230 < l then tuned_env e0 else e0)) \<and>
     (\<forall>(k, v)\<in>set tuned_settings. tuned_env e0 k = Some v)"
proof -
  have 1: "ev_env e = tuned_env e0"
    if "e \<in> set (trace (run_notebook w e0))" and "230 < ev_cell e" for e
    using event_environment[OF that(1)] that(2) by auto
  from environment_stages[of w e0]
  have st: "case raised (run_notebook w e0) of
         None \<Rightarrow> environ (run_notebook w e0) = tuned_env e0
       | Some (l, x) \<Rightarrow>
           (environ (run_notebook w e0) = e0 \<and> (\<exists>c\<in>set cells_before_environ. l = cell_line c)) \<or>
           (environ (run_notebook w e0) = tuned_env e0 \<and> (\<exists>c\<in>set cells_after_environ. l = cell_line c))"
    by blast
  have 3: "case raised (run_notebook w e0) of
        None \<Rightarrow> environ (run_notebook w e0) = tuned_env e0
      | Some (l, x) \<Rightarrow> environ (run_notebook w e0) = (if 230 < l then tuned_env e0 else e0)"
  proof (cases "raised (run_notebook w e0)")
    case None
    with st show ?thesis by simp
  next
    case (Some a)
    obtain l x where a: "a = (l, x)" by (cases a)
    from st Some a consider
      c where "environ (run_notebook w e0) = e0" "c \<in> set cells_before_environ" "l = cell_line c"
    | c where "environ (run_notebook w e0) = tuned_env e0" "c \<in> set cells_after_environ" "l = cell_line c"
      by auto
    then show ?thesis
    proof cases
      case 1
      with lines_before[of c] Some a show ?thesis by simp
    next
      case 2
      with lines_after[of c] Some a show ?thesis by simp
    qed
  qed
  have 4: "\<forall>(k, v)\<in>set tuned_settings. tuned_env e0 k = Some v"
    by (simp add: tuned_env_def tuned_settings_eq apply_settings_def)
  from 1 no_settings_elsewhere(2) 3 4 show ?thesis by blast
qed

text \<open>C10, at the run in which nothing raises, started with an empty environment: the
  compute of line 357 (interaction 28) runs under the tuned settings, and they are still
  set when the run is over.\<close>

theorem tuned_environment_is_never_restored_witness:
  "trace calm_run ! 28 \<in> set (trace calm_run) \<and>
   230 < ev_cell (trace calm_run ! 28) \<and>
   ev_call (trace calm_run ! 28) = Compute ''ave'' \<and>
   ev_env (trace calm_run ! 28) = tuned_env Map.empty \<and>
   raised calm_run = None \<and>
   environ calm_run = tuned_env Map.empty \<and>
   (''VSI_CURL_CACHE_SIZE'', ''200000000'') \<in> set tuned_settings \<and>
   tuned_env Map.empty ''VSI_CURL_CACHE_SIZE'' = Some ''200000000''"
proof -
  have a: "230 < ev_cell (trace calm_run ! 28)" "ev_call (trace calm_run ! 28) = Compute ''ave''"
    using calm_run_event(4) by (simp_all add: ev_phase_def)
  have b: "(''VSI_CURL_CACHE_SIZE'', ''200000000'') \<in> set tuned_settings"
    by (simp add: tuned_settings_eq)
  have m: "trace calm_run ! 28 \<in> set (trace calm_run)"
    by (simp add: calm_run_event(1))
  have t: "(\<forall>e\<in>set (trace calm_run). 230 < ev_cell e \<longrightarrow> ev_env e = tuned_env Map.empty) \<and>
     (case raised calm_run of
        None \<Rightarrow> environ calm_run = tuned_env Map.empty
      | Some (l, x) \<Rightarrow> environ calm_run = (if 230 < l then tuned_env Map.empty else Map.empty)) \<and>
     (\<forall>(k, v)\<in>set tuned_settings. tuned_env Map.empty k = Some v)"
    unfolding calm_run_def
    using tuned_environment_is_never_restored[of "calm :: nat \<Rightarrow> unit option" Map.empty]
    by simp
  from t m a have 1: "ev_env (trace calm_run ! 28) = tuned_env Map.empty" by blast
  from t calm_run_completes have 2: "environ calm_run = tuned_env Map.empty" by simp
  from t b have 3: "tuned_env Map.empty ''VSI_CURL_CACHE_SIZE'' = Some ''200000000''" by blast
  from 1 2 3 m a b calm_run_completes show ?thesis by simp
qed

end
